theory Spec2Isabelle
  imports Main "HOL-Library.AList" "HOL-Library.Sublist"
begin

section \<open>Values, messages and callbacks\<close>

text \<open>
  The payload type \<open>TData\<close> of the source is erased at run time (the hub stores
  \<open>Channel<any>\<close>), so a payload is any JavaScript value. The model keeps the values whose
  truthiness the code tests: \<open>undefined\<close>, \<open>null\<close>, booleans, integer-valued numbers,
  strings, and object references (always truthy).
\<close>

datatype jsval = JUndefined | JNull | JBool bool | JNum int | JStr string | JObj nat

fun truthy :: "jsval \<Rightarrow> bool" where
  "truthy JUndefined = False"
| "truthy JNull = False"
| "truthy (JBool b) = b"
| "truthy (JNum n) = (n \<noteq> 0)"
| "truthy (JStr s) = (s \<noteq> [])"
| "truthy (JObj r) = True"

text \<open>\<open>interface EventMessage<T> { channel: string; data: T }\<close>\<close>

record EventMessage =
  channel :: string
  data :: jsval

text \<open>
  A callback is a JavaScript function \<open>(data: EventMessage<TData>) => void\<close>. What the
  channel can observe of it is that it is called with a message and that it either returns
  or throws. A callback is modelled by a tag identifying the function and the set of messages
  on which it throws; every call is recorded in a trace, in call order. Callbacks that call
  back into the channel or hub that is invoking them are outside the model.
\<close>

datatype callback = Callback (cb_tag: nat) (cb_throws: "EventMessage \<Rightarrow> bool")

type_synonym trace = "(nat \<times> EventMessage) list"

datatype exn = CallbackError nat | TypeError

definition invoke :: "callback \<Rightarrow> EventMessage \<Rightarrow> trace \<Rightarrow> (exn + unit) \<times> trace" where
  "invoke cb m tr =
     (if cb_throws cb m then Inl (CallbackError (cb_tag cb)) else Inr (),
      tr @ [(cb_tag cb, m)])"

section \<open>Channel\<close>

text \<open>
  \<open>CallbackList<TData> = Record<number, EventCallback<TData>>\<close>: an object whose own
  properties are the subscription identifiers. It is an association list with
  \<open>AList.update\<close> for \<open>o[id] = cb\<close> and \<open>AList.delete\<close> for \<open>delete o[id]\<close>.
  \<open>Object.values\<close> enumerates integer keys in ascending numeric order.
  Identifiers are natural numbers (the source's \<open>number\<close> counts exactly up to \<open>2^53\<close>).
\<close>

type_synonym CallbackList = "(nat \<times> callback) list"

definition Object_values :: "(nat \<times> 'a) list \<Rightarrow> 'a list" where
  "Object_values al = map snd (sort_key fst al)"

record Channel =
  name :: string
  lastEvent :: jsval
  lastId :: nat
  callbacks :: CallbackList

text \<open>\<open>constructor(name)\<close> with the field initialisers \<open>_lastId = 0\<close>, \<open>_callbacks = {}\<close>;
  \<open>_lastEvent\<close> starts as \<open>undefined\<close>.\<close>

definition new_Channel :: "string \<Rightarrow> Channel" where
  "new_Channel n = \<lparr>name = n, lastEvent = JUndefined, lastId = 0, callbacks = []\<rparr>"

text \<open>\<open>return ++this._lastId;\<close>\<close>

definition getNextId :: "Channel \<Rightarrow> nat \<times> Channel" where
  "getNextId c = (Suc (lastId c), c\<lparr>lastId := Suc (lastId c)\<rparr>)"

text \<open>The closure \<open>() => { delete this._callbacks[id]; }\<close>, acting on the channel object
  it was created in.\<close>

definition delete_callback :: "nat \<Rightarrow> Channel \<Rightarrow> Channel" where
  "delete_callback i c = c\<lparr>callbacks := AList.delete i (callbacks c)\<rparr>"

record Subscription =
  unsubscribe :: "Channel \<Rightarrow> Channel"
  id_sub :: nat

definition Channel_subscribe ::
  "callback \<Rightarrow> bool \<Rightarrow> Channel \<Rightarrow> trace \<Rightarrow> (exn + Subscription) \<times> Channel \<times> trace" where
  "Channel_subscribe cb replay c tr =
     (let (i, c1) = getNextId c;
          lastEv = lastEvent c1;
          c2 = c1\<lparr>callbacks := AList.update i cb (callbacks c1)\<rparr>;
          sub = \<lparr>unsubscribe = delete_callback i, id_sub = i\<rparr>
      in if replay \<and> truthy lastEv then
           (case invoke cb \<lparr>channel = name c2, data = lastEv\<rparr> tr of
              (Inl e, tr') \<Rightarrow> (Inl e, c2, tr')
            | (Inr u, tr') \<Rightarrow> (Inr sub, c2, tr'))
         else (Inr sub, c2, tr))"

text \<open>\<open>Array.prototype.forEach\<close> over the callbacks: a throw ends the loop.\<close>

fun forEach :: "callback list \<Rightarrow> EventMessage \<Rightarrow> trace \<Rightarrow> (exn + unit) \<times> trace" where
  "forEach [] m tr = (Inr (), tr)"
| "forEach (cb # cbs) m tr =
     (case invoke cb m tr of
        (Inl e, tr') \<Rightarrow> (Inl e, tr')
      | (Inr u, tr') \<Rightarrow> forEach cbs m tr')"

definition Channel_publish ::
  "jsval \<Rightarrow> Channel \<Rightarrow> trace \<Rightarrow> (exn + unit) \<times> Channel \<times> trace" where
  "Channel_publish d c tr =
     (let c1 = c\<lparr>lastEvent := d\<rparr>;
          (r, tr') = forEach (Object_values (callbacks c1)) \<lparr>channel = name c1, data = d\<rparr> tr
      in (r, c1, tr'))"

section \<open>EventHub\<close>

text \<open>
  \<open>_channels: Record<string, Channel<any>>\<close> is a plain object created by \<open>{}\<close>. Its own
  properties are an association list from names to channels; no code enumerates the table,
  and the list keeps the entries in the order they were added. A property read
  \<open>this._channels[n]\<close> finds an own property first and otherwise what every object inherits
  from \<open>Object.prototype\<close>: in a standard environment the names below, each bound to a
  function or object, which is truthy and has none of the methods of a channel.
\<close>

record EventHub =
  channels :: "(string \<times> Channel) list"

definition WildCardChannel :: string where
  "WildCardChannel = ''*''"

definition Object_prototype_names :: "string list" where
  "Object_prototype_names =
     [''constructor'', ''toString'', ''toLocaleString'', ''valueOf'', ''hasOwnProperty'',
      ''isPrototypeOf'', ''propertyIsEnumerable'', ''__proto__'', ''__defineGetter__'',
      ''__defineSetter__'', ''__lookupGetter__'', ''__lookupSetter__'']"

text \<open>The value of \<open>this._channels[n]\<close>.\<close>

datatype property = Undefined | ChannelObject Channel | InheritedObject

definition get_channel :: "EventHub \<Rightarrow> string \<Rightarrow> property" where
  "get_channel h n =
     (case map_of (channels h) n of
        Some c \<Rightarrow> ChannelObject c
      | None \<Rightarrow> if n \<in> set Object_prototype_names then InheritedObject else Undefined)"

definition new_EventHub :: EventHub where
  "new_EventHub =
     \<lparr>channels = AList.update WildCardChannel (new_Channel WildCardChannel) []\<rparr>"

text \<open>\<open>if (!this._channels[channel]) { this._channels[channel] = new Channel(channel); }\<close>:
  only \<open>undefined\<close> is falsy here.\<close>

definition ensure_channel :: "string \<Rightarrow> EventHub \<Rightarrow> EventHub" where
  "ensure_channel n h =
     (case get_channel h n of
        Undefined \<Rightarrow> h\<lparr>channels := AList.update n (new_Channel n) (channels h)\<rparr>
      | ChannelObject c \<Rightarrow> h
      | InheritedObject \<Rightarrow> h)"

text \<open>A method call \<open>this._channels[n].m(...)\<close>: on a stored channel the method runs on that
  object, which is mutated in place; on \<open>undefined\<close> and on an inherited value, which has no
  such method, it is a \<open>TypeError\<close>.\<close>

definition on_channel ::
  "string \<Rightarrow> (Channel \<Rightarrow> trace \<Rightarrow> (exn + 'a) \<times> Channel \<times> trace) \<Rightarrow>
   EventHub \<Rightarrow> trace \<Rightarrow> (exn + 'a) \<times> EventHub \<times> trace" where
  "on_channel n m h tr =
     (case get_channel h n of
        ChannelObject c \<Rightarrow>
          (case m c tr of
             (r, c', tr') \<Rightarrow> (r, h\<lparr>channels := AList.update n c' (channels h)\<rparr>, tr'))
      | Undefined \<Rightarrow> (Inl TypeError, h, tr)
      | InheritedObject \<Rightarrow> (Inl TypeError, h, tr))"

definition EventHub_subscribe ::
  "string \<Rightarrow> callback \<Rightarrow> bool \<Rightarrow> EventHub \<Rightarrow> trace \<Rightarrow>
   (exn + Subscription) \<times> EventHub \<times> trace" where
  "EventHub_subscribe n cb replay h tr =
     on_channel n (Channel_subscribe cb replay) (ensure_channel n h) tr"

definition EventHub_publish ::
  "string \<Rightarrow> jsval \<Rightarrow> EventHub \<Rightarrow> trace \<Rightarrow> (exn + unit) \<times> EventHub \<times> trace" where
  "EventHub_publish n d h tr =
     (case on_channel n (Channel_publish d) (ensure_channel n h) tr of
        (Inl e, h1, tr1) \<Rightarrow> (Inl e, h1, tr1)
      | (Inr u, h1, tr1) \<Rightarrow>
          (case on_channel WildCardChannel (Channel_publish d) h1 tr1 of
             (Inl e, h2, tr2) \<Rightarrow> (Inl e, h2, tr2)
           | (Inr u, h2, tr2) \<Rightarrow> on_channel WildCardChannel (Channel_publish d) h2 tr2))"

text \<open>\<open>return this._channels[channel].lastEvent;\<close>: the getter of a stored channel; an
  inherited value has no property \<open>lastEvent\<close>, so the read gives \<open>undefined\<close>.\<close>

definition EventHub_lastEvent :: "string \<Rightarrow> EventHub \<Rightarrow> (exn + jsval) \<times> EventHub" where
  "EventHub_lastEvent n h =
     (let h1 = ensure_channel n h
      in case get_channel h1 n of
           ChannelObject c \<Rightarrow> (Inr (lastEvent c), h1)
         | InheritedObject \<Rightarrow> (Inr JUndefined, h1)
         | Undefined \<Rightarrow> (Inl TypeError, h1))"

text \<open>Calling \<open>unsubscribe()\<close> of a handle obtained from \<open>EventHub.subscribe(n, ...)\<close>: the
  closure runs on the channel object stored under \<open>n\<close>.\<close>

definition EventHub_unsubscribe :: "string \<Rightarrow> Subscription \<Rightarrow> EventHub \<Rightarrow> EventHub" where
  "EventHub_unsubscribe n s h = h\<lparr>channels := AList.map_entry n (unsubscribe s) (channels h)\<rparr>"

section \<open>Sequences of operations\<close>

text \<open>
  A client performing operations one after another on a channel it created, catching
  whatever a callback throws and carrying on. \<open>Unsubscribe i\<close> is a call of the
  \<open>unsubscribe\<close> closure of the handle with identifier \<open>i\<close>; for an identifier that
  has not been handed out it changes nothing.
\<close>

datatype chan_op = Subscribe callback bool | Unsubscribe nat | Publish jsval

fun chan_step :: "chan_op \<Rightarrow> Channel \<times> trace \<Rightarrow> Channel \<times> trace" where
  "chan_step (Subscribe cb replay) (c, tr) = snd (Channel_subscribe cb replay c tr)"
| "chan_step (Unsubscribe i) (c, tr) = (delete_callback i c, tr)"
| "chan_step (Publish d) (c, tr) = snd (Channel_publish d c tr)"

fun chan_run :: "chan_op list \<Rightarrow> Channel \<times> trace \<Rightarrow> Channel \<times> trace" where
  "chan_run [] s = s"
| "chan_run (x # xs) s = chan_run xs (chan_step x s)"

fun is_Subscribe :: "chan_op \<Rightarrow> bool" where
  "is_Subscribe (Subscribe cb replay) = True"
| "is_Subscribe x = False"

text \<open>The payload of the most recent \<open>Publish\<close> in a sequence, \<open>dflt\<close> if there is none.\<close>

fun last_published :: "jsval \<Rightarrow> chan_op list \<Rightarrow> jsval" where
  "last_published dflt [] = dflt"
| "last_published dflt (Publish d # xs) = last_published d xs"
| "last_published dflt (x # xs) = last_published dflt xs"

text \<open>The same for a hub; \<open>HUnsubscribe n i\<close> calls the \<open>unsubscribe\<close> closure of the handle
  with identifier \<open>i\<close> that a subscription to \<open>n\<close> returned.\<close>

datatype hub_op =
    HSubscribe string callback bool
  | HPublish string jsval
  | HLastEvent string
  | HUnsubscribe string nat

fun hub_step :: "hub_op \<Rightarrow> EventHub \<times> trace \<Rightarrow> EventHub \<times> trace" where
  "hub_step (HSubscribe n cb replay) (h, tr) = snd (EventHub_subscribe n cb replay h tr)"
| "hub_step (HPublish n d) (h, tr) = snd (EventHub_publish n d h tr)"
| "hub_step (HLastEvent n) (h, tr) = (snd (EventHub_lastEvent n h), tr)"
| "hub_step (HUnsubscribe n i) (h, tr) =
     (EventHub_unsubscribe n \<lparr>unsubscribe = delete_callback i, id_sub = i\<rparr> h, tr)"

fun hub_run :: "hub_op list \<Rightarrow> EventHub \<times> trace \<Rightarrow> EventHub \<times> trace" where
  "hub_run [] s = s"
| "hub_run (x # xs) s = hub_run xs (hub_step x s)"



section \<open>Representation invariants\<close>

text \<open>
  The subscriber list of a channel: its identifiers are stored in ascending order without
  repetition, each positive and at most the last identifier handed out.
\<close>

definition chan_inv :: "Channel \<Rightarrow> bool" where
  "chan_inv c \<longleftrightarrow>
     sorted (map fst (callbacks c)) \<and> distinct (map fst (callbacks c)) \<and>
     (\<forall>k\<in>set (map fst (callbacks c)). 0 < k \<and> k \<le> lastId c)"

text \<open>
  The channel table of a hub: the wildcard channel is present, the channel stored under a
  name carries that name (it was constructed as \<open>new Channel(channel)\<close>), and no inherited
  name has an entry.
\<close>

definition hub_inv :: "EventHub \<Rightarrow> bool" where
  "hub_inv h \<longleftrightarrow>
     map_of (channels h) WildCardChannel \<noteq> None \<and>
     (\<forall>k c. map_of (channels h) k = Some c \<longrightarrow> name c = k) \<and>
     (\<forall>k\<in>set Object_prototype_names. map_of (channels h) k = None)"

text \<open>The callbacks subscribed to a name, in the order a publish calls them
  (\<open>Object.values(hub.channels[n].callbacks)\<close>); none when the name has no channel.\<close>

definition subscribers :: "string \<Rightarrow> EventHub \<Rightarrow> callback list" where
  "subscribers n h =
     (case map_of (channels h) n of None \<Rightarrow> [] | Some c \<Rightarrow> Object_values (callbacks c))"

text \<open>Unfolding rules for evaluating the operations on concrete inputs.\<close>

lemmas run_simps = Channel_subscribe_def Channel_publish_def getNextId_def invoke_def
  Object_values_def new_Channel_def delete_callback_def Let_def
  EventHub_subscribe_def EventHub_publish_def EventHub_lastEvent_def EventHub_unsubscribe_def
  on_channel_def ensure_channel_def get_channel_def Object_prototype_names_def
  new_EventHub_def WildCardChannel_def

section \<open>Auxiliary facts about property lists and the fan-out loop\<close>

lemma update_fresh: "k \<notin> fst ` set al \<Longrightarrow> AList.update k v al = al @ [(k, v)]"
  by (induction al) auto

lemma sort_key_fst_keys:
  assumes "distinct (map fst al)"
  shows "map fst (sort_key fst al) = sorted_list_of_set (fst ` set al)"
proof -
  have d: "distinct (map fst (sort_key fst al))"
    using assms by (simp add: distinct_map)
  have s: "sorted (map fst (sort_key fst al))"
    by (rule sorted_sort_key)
  have "sorted_list_of_set (set (map fst (sort_key fst al))) = map fst (sort_key fst al)"
    using s d by (rule sorted_list_of_set.idem_if_sorted_distinct)
  then show ?thesis by simp
qed

lemma map_snd_lookup:
  assumes "distinct (map fst al)" and "set ys = set al"
  shows "map snd ys = map (\<lambda>k. the (map_of al k)) (map fst ys)"
proof -
  have "\<And>x. x \<in> set ys \<Longrightarrow> snd x = the (map_of al (fst x))"
  proof -
    fix x assume "x \<in> set ys"
    then have "(fst x, snd x) \<in> set al" using assms(2) by simp
    then have "map_of al (fst x) = Some (snd x)" using assms(1) by simp
    then show "snd x = the (map_of al (fst x))" by simp
  qed
  then show ?thesis by simp
qed

lemma Object_values_lookup:
  assumes "distinct (map fst al)"
  shows "Object_values al = map (\<lambda>k. the (map_of al k)) (sorted_list_of_set (fst ` set al))"
  unfolding Object_values_def
  using map_snd_lookup[OF assms, of "sort_key fst al"] sort_key_fst_keys[OF assms]
  by simp

lemma forEach_no_throw:
  "\<forall>cb\<in>set cbs. \<not> cb_throws cb m \<Longrightarrow>
   forEach cbs m tr = (Inr (), tr @ map (\<lambda>cb. (cb_tag cb, m)) cbs)"
  by (induction cbs arbitrary: tr) (simp_all add: invoke_def)

lemma forEach_throw:
  "\<forall>cb\<in>set pre. \<not> cb_throws cb m \<Longrightarrow> cb_throws cb m \<Longrightarrow>
   forEach (pre @ cb # post) m tr =
     (Inl (CallbackError (cb_tag cb)), tr @ map (\<lambda>cb. (cb_tag cb, m)) pre @ [(cb_tag cb, m)])"
  by (induction pre arbitrary: tr) (simp_all add: invoke_def)

lemma forEach_prefix:
  "\<exists>ext. snd (forEach cbs m tr) = tr @ ext \<and> prefix ext (map (\<lambda>cb. (cb_tag cb, m)) cbs)"
proof (induction cbs arbitrary: tr)
  case Nil
  then show ?case by simp
next
  case (Cons cb cbs)
  show ?case
  proof (cases "cb_throws cb m")
    case True
    then show ?thesis by (simp add: invoke_def)
  next
    case False
    obtain ext where e: "snd (forEach cbs m (tr @ [(cb_tag cb, m)])) = (tr @ [(cb_tag cb, m)]) @ ext"
      and p: "prefix ext (map (\<lambda>cb. (cb_tag cb, m)) cbs)"
      using Cons.IH by blast
    have "snd (forEach (cb # cbs) m tr) = tr @ ((cb_tag cb, m) # ext)"
      using False e by (simp add: invoke_def)
    moreover have "prefix ((cb_tag cb, m) # ext) (map (\<lambda>cb. (cb_tag cb, m)) (cb # cbs))"
      using p by simp
    ultimately show ?thesis by blast
  qed
qed

section \<open>What the channel operations do to the fields\<close>

lemma Channel_subscribe_state:
  "fst (snd (Channel_subscribe cb replay c tr)) =
     c\<lparr>lastId := Suc (lastId c), callbacks := AList.update (Suc (lastId c)) cb (callbacks c)\<rparr>"
  by (simp add: Channel_subscribe_def getNextId_def Let_def split: prod.splits sum.splits)

lemma Channel_subscribe_result:
  "fst (Channel_subscribe cb replay c tr) =
     (if replay \<and> truthy (lastEvent c) \<and> cb_throws cb \<lparr>channel = name c, data = lastEvent c\<rparr>
      then Inl (CallbackError (cb_tag cb))
      else Inr \<lparr>unsubscribe = delete_callback (Suc (lastId c)), id_sub = Suc (lastId c)\<rparr>)"
  by (simp add: Channel_subscribe_def getNextId_def invoke_def Let_def)

lemma Channel_publish_state: "fst (snd (Channel_publish d c tr)) = c\<lparr>lastEvent := d\<rparr>"
  by (simp add: Channel_publish_def Let_def split: prod.splits)

lemma chan_inv_new: "chan_inv (new_Channel n)"
  by (simp add: chan_inv_def new_Channel_def)

lemma chan_inv_fresh_key: "chan_inv c \<Longrightarrow> Suc (lastId c) \<notin> fst ` set (callbacks c)"
  by (auto simp add: chan_inv_def)

lemma chan_inv_subscribe:
  assumes "chan_inv c"
  shows "chan_inv (fst (snd (Channel_subscribe cb replay c tr)))"
proof -
  have u: "AList.update (Suc (lastId c)) cb (callbacks c) = callbacks c @ [(Suc (lastId c), cb)]"
    using chan_inv_fresh_key[OF assms] by (rule update_fresh)
  have b: "\<forall>k\<in>set (map fst (callbacks c)). k \<le> lastId c"
    using assms by (simp add: chan_inv_def)
  have s: "sorted (map fst (callbacks c) @ [Suc (lastId c)])"
    using assms b by (auto simp add: chan_inv_def sorted_append)
  have d: "distinct (map fst (callbacks c) @ [Suc (lastId c)])"
    using assms b by (auto simp add: chan_inv_def)
  show ?thesis
    using assms s d by (auto simp add: Channel_subscribe_state u chan_inv_def)
qed

lemma chan_inv_delete: "chan_inv c \<Longrightarrow> chan_inv (delete_callback i c)"
  by (auto simp add: chan_inv_def delete_callback_def AList.delete_eq sorted_filter distinct_map_filter)

lemma chan_inv_publish: "chan_inv c \<Longrightarrow> chan_inv (fst (snd (Channel_publish d c tr)))"
  by (simp add: Channel_publish_state chan_inv_def)

lemma chan_inv_step: "chan_inv (fst s) \<Longrightarrow> chan_inv (fst (chan_step x s))"
  by (cases x; cases s) (simp_all add: chan_inv_subscribe chan_inv_delete chan_inv_publish)

lemma chan_inv_run: "chan_inv (fst s) \<Longrightarrow> chan_inv (fst (chan_run xs s))"
  by (induction xs arbitrary: s) (simp_all add: chan_inv_step)

lemma lastId_step:
  "lastId (fst (chan_step x s)) = lastId (fst s) + (if is_Subscribe x then 1 else 0)"
  by (cases x; cases s)
    (simp_all add: Channel_subscribe_state Channel_publish_state delete_callback_def)


lemma name_step: "name (fst (chan_step x s)) = name (fst s)"
  by (cases x; cases s)
    (simp_all add: Channel_subscribe_state Channel_publish_state delete_callback_def)

lemma name_run: "name (fst (chan_run xs s)) = name (fst s)"
  by (induction xs arbitrary: s) (simp_all add: name_step)

lemma lastEvent_run:
  "lastEvent (fst (chan_run xs s)) = last_published (lastEvent (fst s)) xs"
proof (induction xs arbitrary: s)
  case Nil
  show ?case by simp
next
  case (Cons x xs)
  show ?case
    by (cases x; cases s)
      (simp_all add: Cons.IH Channel_subscribe_state Channel_publish_state delete_callback_def)
qed

lemma keys_step:
  "k \<in> fst ` set (callbacks (fst (chan_step x s))) \<Longrightarrow>
   k \<in> fst ` set (callbacks (fst s)) \<or> lastId (fst s) < k"
proof (cases x)
  case (Subscribe cb replay)
  assume "k \<in> fst ` set (callbacks (fst (chan_step x s)))"
  then show ?thesis using Subscribe
    by (cases s) (auto simp add: Channel_subscribe_state dom_update)
next
  case (Unsubscribe i)
  assume "k \<in> fst ` set (callbacks (fst (chan_step x s)))"
  then show ?thesis using Unsubscribe
    by (cases s) (auto simp add: delete_callback_def AList.delete_eq)
next
  case (Publish d)
  assume "k \<in> fst ` set (callbacks (fst (chan_step x s)))"
  then show ?thesis using Publish
    by (cases s) (simp add: Channel_publish_state)
qed

lemma keys_run:
  "k \<in> fst ` set (callbacks (fst (chan_run xs s))) \<Longrightarrow>
   k \<in> fst ` set (callbacks (fst s)) \<or> lastId (fst s) < k"
proof (induction xs arbitrary: s)
  case Nil
  then show ?case by simp
next
  case (Cons x xs)
  from Cons.IH[of "chan_step x s"] Cons.prems
  have "k \<in> fst ` set (callbacks (fst (chan_step x s))) \<or> lastId (fst (chan_step x s)) < k"
    by simp
  then show ?case
    using keys_step[of k x s] lastId_step[of x s] by (auto split: if_splits)
qed

section \<open>Property reads and the names in the channel table\<close>

lemma get_channel_ChannelObject:
  "get_channel h n = ChannelObject c \<longleftrightarrow> map_of (channels h) n = Some c"
  by (simp add: get_channel_def split: option.splits)


lemma get_channel_InheritedObject:
  "get_channel h n = InheritedObject \<longleftrightarrow>
     map_of (channels h) n = None \<and> n \<in> set Object_prototype_names"
  by (simp add: get_channel_def split: option.splits)

lemma map_entry_keys: "map fst (AList.map_entry k f al) = map fst al"
  by (induction al) auto

lemma update_present_keys:
  "map_of al k = Some v \<Longrightarrow> map fst (AList.update k v' al) = map fst al"
proof -
  assume "map_of al k = Some v"
  then have "k \<in> set (map fst al)"
    by (metis map_of_eq_None_iff option.distinct(1) set_map)
  then show ?thesis by (simp add: update_keys)
qed

lemma ensure_channel_cases:
  "ensure_channel n h =
     (if map_of (channels h) n = None \<and> n \<notin> set Object_prototype_names
      then h\<lparr>channels := AList.update n (new_Channel n) (channels h)\<rparr> else h)"
  by (simp add: ensure_channel_def get_channel_def split: option.splits)

lemma keys_ensure_channel:
  "map fst (channels (ensure_channel n h)) =
     (if n \<in> set (map fst (channels h)) \<or> n \<in> set Object_prototype_names
      then map fst (channels h) else map fst (channels h) @ [n])"
proof (cases "map_of (channels h) n")
  case None
  then have "n \<notin> set (map fst (channels h))"
    by (simp add: map_of_eq_None_iff)
  then show ?thesis using None
    by (simp add: ensure_channel_cases update_keys)
next
  case (Some c)
  then have "n \<in> set (map fst (channels h))"
    by (metis map_of_eq_None_iff option.distinct(1) set_map)
  then show ?thesis using Some
    by (simp add: ensure_channel_cases)
qed

lemma keys_on_channel:
  "map fst (channels (fst (snd (on_channel n m h tr)))) = map fst (channels h)"
  by (auto simp add: on_channel_def get_channel_ChannelObject update_present_keys
      split: property.splits prod.splits)

lemma keys_EventHub_subscribe:
  "map fst (channels (fst (snd (EventHub_subscribe n cb replay h tr)))) =
     map fst (channels (ensure_channel n h))"
  by (simp add: EventHub_subscribe_def keys_on_channel)

lemma keys_EventHub_publish:
  "map fst (channels (fst (snd (EventHub_publish n d h tr)))) =
     map fst (channels (ensure_channel n h))"
proof -
  obtain r1 h1 tr1 where
    s1: "on_channel n (Channel_publish d) (ensure_channel n h) tr = (r1, h1, tr1)"
    by (cases "on_channel n (Channel_publish d) (ensure_channel n h) tr") auto
  have k1: "map fst (channels h1) = map fst (channels (ensure_channel n h))"
    using keys_on_channel[of n "Channel_publish d" "ensure_channel n h" tr] s1 by simp
  obtain r2 h2 tr2 where
    s2: "on_channel WildCardChannel (Channel_publish d) h1 tr1 = (r2, h2, tr2)"
    by (cases "on_channel WildCardChannel (Channel_publish d) h1 tr1") auto
  have k2: "map fst (channels h2) = map fst (channels h1)"
    using keys_on_channel[of WildCardChannel "Channel_publish d" h1 tr1] s2 by simp
  obtain r3 h3 tr3 where
    s3: "on_channel WildCardChannel (Channel_publish d) h2 tr2 = (r3, h3, tr3)"
    by (cases "on_channel WildCardChannel (Channel_publish d) h2 tr2") auto
  have k3: "map fst (channels h3) = map fst (channels h2)"
    using keys_on_channel[of WildCardChannel "Channel_publish d" h2 tr2] s3 by simp
  show ?thesis using s1 s2 s3 k1 k2 k3
    by (simp add: EventHub_publish_def split: sum.splits)
qed

lemma keys_EventHub_lastEvent:
  "map fst (channels (snd (EventHub_lastEvent n h))) = map fst (channels (ensure_channel n h))"
  by (simp add: EventHub_lastEvent_def Let_def split: property.splits)

lemma keys_EventHub_unsubscribe:
  "map fst (channels (EventHub_unsubscribe n s h)) = map fst (channels h)"
  by (simp add: EventHub_unsubscribe_def map_entry_keys)

lemma ensure_channel_present:
  "n \<notin> set Object_prototype_names \<Longrightarrow>
   \<exists>c. map_of (channels (ensure_channel n h)) n = Some c"
  by (auto simp add: ensure_channel_cases update_conv')

section \<open>The hub invariant and a single channel publish\<close>

lemma hub_inv_new: "hub_inv new_EventHub"
  by (simp add: hub_inv_def new_EventHub_def new_Channel_def WildCardChannel_def
      Object_prototype_names_def)

lemma hub_inv_ensure_channel: "hub_inv h \<Longrightarrow> hub_inv (ensure_channel n h)"
  by (auto simp add: hub_inv_def ensure_channel_cases update_conv' new_Channel_def
      split: if_splits)

lemma hub_inv_on_channel:
  assumes "hub_inv h" and "\<And>c t. name (fst (snd (m c t))) = name c"
  shows "hub_inv (fst (snd (on_channel n m h tr)))"
proof (cases "get_channel h n")
  case Undefined
  then show ?thesis using assms(1) by (simp add: on_channel_def)
next
  case InheritedObject
  then show ?thesis using assms(1) by (simp add: on_channel_def)
next
  case (ChannelObject c)
  then have own: "map_of (channels h) n = Some c"
    by (simp add: get_channel_ChannelObject)
  obtain r c' tr' where m: "m c tr = (r, c', tr')"
    by (cases "m c tr") auto
  have "name c' = name c" using assms(2)[of c tr] m by simp
  moreover have "name c = n" using assms(1) own by (simp add: hub_inv_def)
  moreover have "n \<notin> set Object_prototype_names"
    using assms(1) own by (auto simp add: hub_inv_def)
  ultimately show ?thesis
    using assms(1) ChannelObject m
    by (auto simp add: on_channel_def hub_inv_def update_conv')
qed

lemma name_Channel_subscribe: "name (fst (snd (Channel_subscribe cb replay c tr))) = name c"
  by (simp add: Channel_subscribe_state)

lemma name_Channel_publish: "name (fst (snd (Channel_publish d c tr))) = name c"
  by (simp add: Channel_publish_state)

lemma hub_inv_EventHub_subscribe:
  "hub_inv h \<Longrightarrow> hub_inv (fst (snd (EventHub_subscribe n cb replay h tr)))"
  unfolding EventHub_subscribe_def
  by (rule hub_inv_on_channel[OF hub_inv_ensure_channel]) (simp_all add: name_Channel_subscribe)

lemma hub_inv_EventHub_publish:
  assumes "hub_inv h"
  shows "hub_inv (fst (snd (EventHub_publish n d h tr)))"
proof -
  obtain r1 h1 tr1 where
    s1: "on_channel n (Channel_publish d) (ensure_channel n h) tr = (r1, h1, tr1)"
    by (cases "on_channel n (Channel_publish d) (ensure_channel n h) tr") auto
  have i1: "hub_inv h1"
    using hub_inv_on_channel[OF hub_inv_ensure_channel[OF assms], of "Channel_publish d" n n tr]
      s1 by (simp add: name_Channel_publish)
  obtain r2 h2 tr2 where
    s2: "on_channel WildCardChannel (Channel_publish d) h1 tr1 = (r2, h2, tr2)"
    by (cases "on_channel WildCardChannel (Channel_publish d) h1 tr1") auto
  have i2: "hub_inv h2"
    using hub_inv_on_channel[OF i1, of "Channel_publish d" WildCardChannel tr1] s2
    by (simp add: name_Channel_publish)
  obtain r3 h3 tr3 where
    s3: "on_channel WildCardChannel (Channel_publish d) h2 tr2 = (r3, h3, tr3)"
    by (cases "on_channel WildCardChannel (Channel_publish d) h2 tr2") auto
  have i3: "hub_inv h3"
    using hub_inv_on_channel[OF i2, of "Channel_publish d" WildCardChannel tr2] s3
    by (simp add: name_Channel_publish)
  show ?thesis using s1 s2 s3 i1 i2 i3
    by (simp add: EventHub_publish_def split: sum.splits)
qed

lemma hub_inv_EventHub_lastEvent: "hub_inv h \<Longrightarrow> hub_inv (snd (EventHub_lastEvent n h))"
  using hub_inv_ensure_channel[of h n]
  by (simp add: EventHub_lastEvent_def Let_def split: property.splits)

lemma hub_inv_EventHub_unsubscribe:
  "hub_inv h \<Longrightarrow> hub_inv (EventHub_unsubscribe n \<lparr>unsubscribe = delete_callback i, id_sub = i\<rparr> h)"
  by (auto simp add: hub_inv_def EventHub_unsubscribe_def map_of_map_entry delete_callback_def
      split: option.splits if_splits)

lemma hub_inv_step: "hub_inv (fst s) \<Longrightarrow> hub_inv (fst (hub_step x s))"
  by (cases x; cases s)
    (simp_all add: hub_inv_EventHub_subscribe hub_inv_EventHub_publish
      hub_inv_EventHub_lastEvent hub_inv_EventHub_unsubscribe)

lemma hub_inv_run: "hub_inv (fst s) \<Longrightarrow> hub_inv (fst (hub_run xs s))"
  by (induction xs arbitrary: s) (simp_all add: hub_inv_step)

lemma forEach_Inr:
  "fst (forEach cbs m tr) = Inr u \<Longrightarrow>
   snd (forEach cbs m tr) = tr @ map (\<lambda>cb. (cb_tag cb, m)) cbs"
  by (induction cbs arbitrary: tr) (auto simp add: invoke_def split: if_splits)

lemma subscribers_ensure_channel: "subscribers k (ensure_channel n h) = subscribers k h"
  by (auto simp add: subscribers_def ensure_channel_cases update_conv' new_Channel_def
      Object_values_def split: option.splits)

text \<open>One \<open>this._channels[k].publish(d)\<close> on a hub whose channel \<open>k\<close> exists.\<close>

lemma on_channel_publish:
  assumes "hub_inv h" and "map_of (channels h) k \<noteq> None"
    and "on_channel k (Channel_publish d) h tr = (r, h', tr')"
  shows "hub_inv h'"
    and "subscribers k' h' = subscribers k' h"
    and "\<exists>e. tr' = tr @ e \<and>
           prefix e (map (\<lambda>cb. (cb_tag cb, \<lparr>channel = k, data = d\<rparr>)) (subscribers k h)) \<and>
           (r = Inr () \<longrightarrow> e = map (\<lambda>cb. (cb_tag cb, \<lparr>channel = k, data = d\<rparr>)) (subscribers k h))"
    and "\<forall>cb\<in>set (subscribers k h). \<not> cb_throws cb \<lparr>channel = k, data = d\<rparr> \<Longrightarrow> r = Inr ()"
proof -
  obtain c where c: "map_of (channels h) k = Some c"
    using assms(2) by auto
  have nm: "name c = k"
    using assms(1) c by (simp add: hub_inv_def)
  let ?m = "\<lparr>channel = k, data = d\<rparr>"
  let ?cbs = "Object_values (callbacks c)"
  have sk: "subscribers k h = ?cbs"
    using c by (simp add: subscribers_def)
  have gc: "get_channel h k = ChannelObject c"
    using c by (simp add: get_channel_ChannelObject)
  have res: "r = fst (forEach ?cbs ?m tr)" "tr' = snd (forEach ?cbs ?m tr)"
    "h' = h\<lparr>channels := AList.update k (c\<lparr>lastEvent := d\<rparr>) (channels h)\<rparr>"
    using assms(3) gc nm
    by (auto simp add: on_channel_def Channel_publish_def Let_def split: prod.splits)
  show "hub_inv h'"
    using hub_inv_on_channel[OF assms(1), of "Channel_publish d" k tr] assms(3)
    by (simp add: name_Channel_publish)
  show "subscribers k' h' = subscribers k' h"
    using c by (auto simp add: res(3) subscribers_def update_conv')
  obtain e where e: "snd (forEach ?cbs ?m tr) = tr @ e"
    and p: "prefix e (map (\<lambda>cb. (cb_tag cb, ?m)) ?cbs)"
    using forEach_prefix[of ?cbs ?m tr] by blast
  have "r = Inr () \<longrightarrow> e = map (\<lambda>cb. (cb_tag cb, ?m)) ?cbs"
    using forEach_Inr[of ?cbs ?m tr "()"] e res(1) by auto
  then show "\<exists>e. tr' = tr @ e \<and>
           prefix e (map (\<lambda>cb. (cb_tag cb, ?m)) (subscribers k h)) \<and>
           (r = Inr () \<longrightarrow> e = map (\<lambda>cb. (cb_tag cb, ?m)) (subscribers k h))"
    using e p res(2) sk by auto
  show "r = Inr ()" if "\<forall>cb\<in>set (subscribers k h). \<not> cb_throws cb ?m"
    using forEach_no_throw[of ?cbs ?m tr] that res(1) sk by simp
qed

section \<open>Wildcard delivery\<close>

text \<open>
  Claim C1 says that a wildcard subscriber is invoked exactly once per \<open>EventHub.publish\<close>.
  The method calls the wildcard channel's \<open>publish\<close> twice in a row: after subscribing one
  callback to \<open>*\<close> and publishing \<open>42\<close> to \<open>orders\<close>, the callback has been called
  twice with the same message.
\<close>

theorem C1_wildcard_subscriber_invoked_twice:
  "snd (hub_run [HSubscribe ''*'' (Callback 7 (\<lambda>m. False)) False,
                 HPublish ''orders'' (JNum 42)] (new_EventHub, []))
   = [(7, \<lparr>channel = ''*'', data = JNum 42\<rparr>), (7, \<lparr>channel = ''*'', data = JNum 42\<rparr>)]"
  by (simp add: run_simps)

section \<open>Replay on subscribe\<close>

lemma Channel_subscribe_replay_truthy:
  "truthy (lastEvent c) \<Longrightarrow>
   snd (snd (Channel_subscribe cb True c tr)) =
     tr @ [(cb_tag cb, \<lparr>channel = name c, data = lastEvent c\<rparr>)]"
  by (simp add: Channel_subscribe_def getNextId_def invoke_def Let_def)

lemma Channel_subscribe_no_replay:
  "\<not> (replay \<and> truthy (lastEvent c)) \<Longrightarrow> snd (snd (Channel_subscribe cb replay c tr)) = tr"
  by (simp add: Channel_subscribe_def getNextId_def invoke_def Let_def)

text \<open>
  Claim C2 says that \<open>subscribe(cb, true)\<close> after a publish replays the most recent value.
  The guard \<open>replay && lastEvent\<close> tests the value's truthiness: after \<open>publish(false)\<close> on
  a \<open>Channel<boolean>\<close>, subscribing with replay registers the callback but does not call
  it.
\<close>

theorem C2_falsy_last_event_not_replayed:
  "Channel_subscribe (Callback 7 (\<lambda>m. False)) True
     (fst (chan_run [Publish (JBool False)] (new_Channel ''test'', []))) []
   = (Inr \<lparr>unsubscribe = delete_callback 1, id_sub = 1\<rparr>,
      \<lparr>name = ''test'', lastEvent = JBool False, lastId = 1,
       callbacks = [(1, Callback 7 (\<lambda>m. False))]\<rparr>,
      [])"
  by (simp add: Channel_subscribe_def Channel_publish_def getNextId_def invoke_def
      Object_values_def new_Channel_def Let_def)

section \<open>The channel invariant\<close>

text \<open>
  Claim C3 as stated asks for every subscriber identifier to be strictly less than the
  counter and for the last event to be set exactly when a publish has occurred. The counter
  \<open>_lastId\<close> holds the last identifier handed out (\<open>++this._lastId\<close>), so after one
  subscription the identifier 1 is registered while the counter is 1; and publishing
  \<open>undefined\<close> leaves the last event \<open>undefined\<close>.
\<close>

theorem C3_counterexample:
  "1 \<in> set (map fst (callbacks (fst (chan_run [Subscribe (Callback 7 (\<lambda>m. False)) False]
                                        (new_Channel ''test'', [])))))
   \<and> \<not> 1 < lastId (fst (chan_run [Subscribe (Callback 7 (\<lambda>m. False)) False]
                            (new_Channel ''test'', [])))
   \<and> lastEvent (fst (chan_run [Publish JUndefined] (new_Channel ''test'', []))) = JUndefined"
  by (simp add: run_simps)

text \<open>
  Claim C3, amended. After every sequence of subscribe, unsubscribe and publish operations on
  a channel, the subscriber identifiers are unique, positive and at most the counter, and the
  last event is the payload of the most recent publish, \<open>undefined\<close> if there was none.
\<close>

theorem C3_channel_invariant:
  "distinct (map fst (callbacks (fst (chan_run ops (new_Channel n, [])))))
   \<and> (\<forall>k\<in>set (map fst (callbacks (fst (chan_run ops (new_Channel n, []))))).
         0 < k \<and> k \<le> lastId (fst (chan_run ops (new_Channel n, []))))
   \<and> lastEvent (fst (chan_run ops (new_Channel n, []))) = last_published JUndefined ops"
proof -
  have "chan_inv (fst (chan_run ops (new_Channel n, [])))"
    by (rule chan_inv_run) (simp add: chan_inv_new)
  then show ?thesis
    by (simp add: chan_inv_def lastEvent_run new_Channel_def)
qed

text \<open>An instance: two subscriptions around a publish, one unsubscribed, a second publish.\<close>

theorem C3_witness:
  "distinct (map fst (callbacks (fst (chan_run
       [Subscribe (Callback 7 (\<lambda>m. False)) False, Publish (JNum 5),
        Subscribe (Callback 8 (\<lambda>m. False)) True, Unsubscribe 1, Publish (JStr ''x'')]
       (new_Channel ''test'', [])))))
   \<and> fst (chan_run
       [Subscribe (Callback 7 (\<lambda>m. False)) False, Publish (JNum 5),
        Subscribe (Callback 8 (\<lambda>m. False)) True, Unsubscribe 1, Publish (JStr ''x'')]
       (new_Channel ''test'', []))
     = \<lparr>name = ''test'', lastEvent = JStr ''x'', lastId = 2,
        callbacks = [(2, Callback 8 (\<lambda>m. False))]\<rparr>
   \<and> last_published JUndefined
       [Subscribe (Callback 7 (\<lambda>m. False)) False, Publish (JNum 5),
        Subscribe (Callback 8 (\<lambda>m. False)) True, Unsubscribe 1, Publish (JStr ''x'')]
     = JStr ''x''"
  using C3_channel_invariant[of
       "[Subscribe (Callback 7 (\<lambda>m. False)) False, Publish (JNum 5),
        Subscribe (Callback 8 (\<lambda>m. False)) True, Unsubscribe 1, Publish (JStr ''x'')]" "''test''"]
  by (simp add: run_simps)

section \<open>Fan-out order\<close>

lemma sort_keys_distinct:
  "distinct ks \<Longrightarrow> sorted_list_of_set (set ks) = sort (ks :: nat list)"
  by (simp add: sorted_list_of_set_sort_remdups distinct_remdups_id)

lemma forEach_exact:
  "forEach cbs m tr =
     ((case dropWhile (\<lambda>cb. \<not> cb_throws cb m) cbs of
         [] \<Rightarrow> Inr ()
       | cb # rest \<Rightarrow> Inl (CallbackError (cb_tag cb))),
      tr @ map (\<lambda>cb. (cb_tag cb, m))
             (takeWhile (\<lambda>cb. \<not> cb_throws cb m) cbs @
              take 1 (dropWhile (\<lambda>cb. \<not> cb_throws cb m) cbs)))"
  by (induction cbs arbitrary: tr) (simp_all add: invoke_def)

lemma case_list_map:
  "(case map f xs of [] \<Rightarrow> a | y # ys \<Rightarrow> b y) = (case xs of [] \<Rightarrow> a | x # zs \<Rightarrow> b (f x))"
  by (cases xs) simp_all

text \<open>
  Claim C4 as stated has \<open>publish\<close> call every currently registered callback. The fan-out
  loop has no exception handling: with a first subscriber that throws and a second one
  registered, a publish calls the first and never the second.
\<close>

theorem C4_counterexample:
  "map fst (callbacks (fst (chan_run [Subscribe (Callback 11 (\<lambda>m. True)) False,
                                      Subscribe (Callback 12 (\<lambda>m. False)) False]
                             (new_Channel ''test'', [])))) = [1, 2]
   \<and> Channel_publish (JNum 5)
        (fst (chan_run [Subscribe (Callback 11 (\<lambda>m. True)) False,
                        Subscribe (Callback 12 (\<lambda>m. False)) False]
               (new_Channel ''test'', []))) []
     = (Inl (CallbackError 11),
        \<lparr>name = ''test'', lastEvent = JNum 5, lastId = 2,
         callbacks = [(1, Callback 11 (\<lambda>m. True)), (2, Callback 12 (\<lambda>m. False))]\<rparr>,
        [(11, \<lparr>channel = ''test'', data = JNum 5\<rparr>)])"
  by (simp add: run_simps)

text \<open>
  Claim C4, amended. On a channel that has seen any sequence of operations, \<open>publish\<close>
  calls the callbacks registered under the identifiers in ascending order of the identifiers,
  each with the message \<open>{channel: name, data}\<close>, up to and including the first one that
  throws, whose exception is the result; when none throws, every registered callback is
  called once and the publish returns. Ascending identifier order is the order in which the
  remaining subscriptions were made: the stored list is already sorted, also after
  unsubscribes.
\<close>

theorem C4_fanout_in_identifier_order:
  "(let c = fst (chan_run ops (new_Channel n, tr0));
        m = \<lparr>channel = n, data = d\<rparr>;
        ks = sort (map fst (callbacks c));
        cb_of = (\<lambda>k. the (map_of (callbacks c) k));
        returns = (\<lambda>k. \<not> cb_throws (cb_of k) m)
    in Channel_publish d c tr =
         ((case dropWhile returns ks of
             [] \<Rightarrow> Inr ()
           | k # rest \<Rightarrow> Inl (CallbackError (cb_tag (cb_of k)))),
          c\<lparr>lastEvent := d\<rparr>,
          tr @ map (\<lambda>k. (cb_tag (cb_of k), m))
                 (takeWhile returns ks @ take 1 (dropWhile returns ks)))
       \<and> ((\<forall>k\<in>set ks. returns k) \<longrightarrow>
            Channel_publish d c tr =
              (Inr (), c\<lparr>lastEvent := d\<rparr>, tr @ map (\<lambda>k. (cb_tag (cb_of k), m)) ks))
       \<and> ks = map fst (callbacks c))"
proof -
  let ?c = "fst (chan_run ops (new_Channel n, tr0))"
  let ?m = "\<lparr>channel = n, data = d\<rparr>"
  let ?ks = "sort (map fst (callbacks ?c))"
  let ?cb = "\<lambda>k. the (map_of (callbacks ?c) k)"
  let ?ret = "\<lambda>k. \<not> cb_throws (?cb k) ?m"
  have inv: "chan_inv ?c"
    by (rule chan_inv_run) (simp add: chan_inv_new)
  have nm: "name ?c = n"
    by (simp add: name_run new_Channel_def)
  have dist: "distinct (map fst (callbacks ?c))"
    using inv by (simp add: chan_inv_def)
  have srt: "?ks = map fst (callbacks ?c)"
    using inv by (simp add: chan_inv_def sort_key_id_if_sorted)
  have vals: "Object_values (callbacks ?c) = map ?cb ?ks"
    using Object_values_lookup[OF dist] sort_keys_distinct[OF dist] by simp
  have pub: "Channel_publish d ?c tr =
      (fst (forEach (map ?cb ?ks) ?m tr), ?c\<lparr>lastEvent := d\<rparr>, snd (forEach (map ?cb ?ks) ?m tr))"
    by (simp add: Channel_publish_def Let_def nm vals split: prod.splits)
  have ex: "forEach (map ?cb ?ks) ?m tr =
      ((case dropWhile ?ret ?ks of
          [] \<Rightarrow> Inr ()
        | k # rest \<Rightarrow> Inl (CallbackError (cb_tag (?cb k)))),
       tr @ map (\<lambda>k. (cb_tag (?cb k), ?m))
              (takeWhile ?ret ?ks @ take 1 (dropWhile ?ret ?ks)))"
    by (simp add: forEach_exact takeWhile_map dropWhile_map take_map case_list_map comp_def)
  have a: "Channel_publish d ?c tr =
         ((case dropWhile ?ret ?ks of
             [] \<Rightarrow> Inr ()
           | k # rest \<Rightarrow> Inl (CallbackError (cb_tag (?cb k)))),
          ?c\<lparr>lastEvent := d\<rparr>,
          tr @ map (\<lambda>k. (cb_tag (?cb k), ?m))
                 (takeWhile ?ret ?ks @ take 1 (dropWhile ?ret ?ks)))"
    by (simp only: pub ex fst_conv snd_conv)
  have b: "(\<forall>k\<in>set ?ks. ?ret k) \<longrightarrow>
            Channel_publish d ?c tr =
              (Inr (), ?c\<lparr>lastEvent := d\<rparr>, tr @ map (\<lambda>k. (cb_tag (?cb k), ?m)) ?ks)"
  proof
    assume q: "\<forall>k\<in>set ?ks. ?ret k"
    then have "dropWhile ?ret ?ks = []" and "takeWhile ?ret ?ks = ?ks"
      by simp_all
    then show "Channel_publish d ?c tr =
              (Inr (), ?c\<lparr>lastEvent := d\<rparr>, tr @ map (\<lambda>k. (cb_tag (?cb k), ?m)) ?ks)"
      by (simp only: a list.case take.simps append_Nil2)
  qed
  show ?thesis
    unfolding Let_def using a b srt by blast
qed

text \<open>The scenario of the claim: identifiers 1, 2, 3, then 2 is unsubscribed; a publish calls
  the callbacks of 1 and 3, in that order.\<close>

theorem C4_witness:
  "Channel_publish (JNum 5)
     (fst (chan_run [Subscribe (Callback 11 (\<lambda>m. False)) False,
                     Subscribe (Callback 12 (\<lambda>m. False)) False,
                     Subscribe (Callback 13 (\<lambda>m. False)) False,
                     Unsubscribe 2] (new_Channel ''test'', []))) []
   = (Inr (),
      \<lparr>name = ''test'', lastEvent = JNum 5, lastId = 3,
       callbacks = [(1, Callback 11 (\<lambda>m. False)), (3, Callback 13 (\<lambda>m. False))]\<rparr>,
      [(11, \<lparr>channel = ''test'', data = JNum 5\<rparr>), (13, \<lparr>channel = ''test'', data = JNum 5\<rparr>)])
   \<and> map fst (callbacks (fst (chan_run [Subscribe (Callback 11 (\<lambda>m. False)) False,
                     Subscribe (Callback 12 (\<lambda>m. False)) False,
                     Subscribe (Callback 13 (\<lambda>m. False)) False,
                     Unsubscribe 2] (new_Channel ''test'', [])))) = [1, 3]"
  using C4_fanout_in_identifier_order[of
      "[Subscribe (Callback 11 (\<lambda>m. False)) False, Subscribe (Callback 12 (\<lambda>m. False)) False,
        Subscribe (Callback 13 (\<lambda>m. False)) False, Unsubscribe 2]" "''test''" "[]" "JNum 5" "[]"]
  by (simp add: run_simps)

section \<open>Subscription identifiers\<close>



section \<open>Lazy channel creation\<close>

text \<open>
  For a name that is not inherited, each of \<open>subscribe\<close>, \<open>publish\<close> and \<open>lastEvent\<close> appends
  the name if it has no entry and otherwise leaves the names as they are
  (\<open>keys_EventHub_subscribe\<close>, \<open>keys_EventHub_publish\<close>, \<open>keys_EventHub_lastEvent\<close> with
  \<open>keys_ensure_channel\<close>), and \<open>unsubscribe\<close> never changes them.
\<close>

lemma new_EventHub_channels: "channels new_EventHub = [(''*'', new_Channel ''*'')]"
  by (simp add: new_EventHub_def WildCardChannel_def)

text \<open>
  Claim C6 says that for every name other than \<open>*\<close> the first \<open>subscribe\<close>, \<open>publish\<close> or
  \<open>lastEvent\<close> creates a channel entry. For the name \<open>toString\<close> on a new hub the guard
  \<open>!this._channels[channel]\<close> reads the inherited function, which is truthy: no entry is
  created, \<open>subscribe\<close> and \<open>publish\<close> end in a \<open>TypeError\<close>, and \<open>lastEvent\<close> returns
  \<open>undefined\<close>; the hub still has the wildcard channel only.
\<close>

theorem C6_inherited_name_creates_no_channel:
  "EventHub_subscribe ''toString'' (Callback 7 (\<lambda>m. False)) False new_EventHub []
     = (Inl TypeError, new_EventHub, [])
   \<and> EventHub_publish ''toString'' (JNum 1) new_EventHub []
     = (Inl TypeError, new_EventHub, [])
   \<and> EventHub_lastEvent ''toString'' new_EventHub = (Inr JUndefined, new_EventHub)
   \<and> map fst (channels new_EventHub) = [''*'']"
  by (simp add: run_simps)

section \<open>Last event retention\<close>





















section \<open>Unsubscribing\<close>

lemma Object_values_delete:
  "Object_values (AList.delete i al) =
     map snd (filter (\<lambda>e. fst e \<noteq> i) (sort_key fst al))"
proof -
  have "AList.delete i al = filter (\<lambda>e. fst e \<noteq> i) al"
    by (auto simp add: AList.delete_eq intro: filter_cong)
  then show ?thesis
    by (simp add: Object_values_def filter_sort)
qed

lemma delete_update_fresh:
  "k \<notin> fst ` set al \<Longrightarrow> AList.delete k (AList.update k v al) = al"
  by (induction al) auto

lemma subscribe_handle:
  "Channel_subscribe cb replay c tr = (Inr s, c', tr') \<Longrightarrow>
   s = \<lparr>unsubscribe = delete_callback (Suc (lastId c)), id_sub = Suc (lastId c)\<rparr> \<and>
   c' = c\<lparr>lastId := Suc (lastId c),
          callbacks := AList.update (Suc (lastId c)) cb (callbacks c)\<rparr>"
  using Channel_subscribe_result[of cb replay c tr] Channel_subscribe_state[of cb replay c tr]
  by (auto split: if_splits)

lemma deleted_key_stays_out:
  assumes "i \<le> lastId c"
  shows "i \<notin> fst ` set (callbacks (fst (chan_run ops (delete_callback i c, tr))))"
proof
  assume "i \<in> fst ` set (callbacks (fst (chan_run ops (delete_callback i c, tr))))"
  from keys_run[OF this]
  have "i \<in> fst ` set (callbacks (delete_callback i c)) \<or> lastId (delete_callback i c) < i"
    by simp
  then show False
    using assms delete_notin_dom[of i "callbacks c"] by (auto simp add: delete_callback_def)
qed

text \<open>
  Claim C8. For the handle \<open>s\<close> returned by a subscription, and any later state \<open>c2\<close> of
  the channel: \<open>unsubscribe\<close> removes the entry of the handle's identifier from the
  subscriber mapping and leaves every other entry, the name, the last event and the counter
  as they are; a second call changes nothing; the callbacks a publish then iterates over are
  the previous ones without that entry, and the identifier never comes back, whatever is done
  on the channel afterwards. Right after the subscription, unsubscribing restores the
  subscriber list. At the hub, the channel names are unchanged and only the channel subscribed
  to is touched.
\<close>

theorem C8_unsubscribe_removes_exactly_one:
  assumes "Channel_subscribe cb replay c tr = (Inr s, c', tr')"
  shows "map_of (callbacks c') (id_sub s) = Some cb
     \<and> map_of (callbacks (unsubscribe s c2)) = (map_of (callbacks c2))(id_sub s := None)
     \<and> name (unsubscribe s c2) = name c2
     \<and> lastEvent (unsubscribe s c2) = lastEvent c2
     \<and> lastId (unsubscribe s c2) = lastId c2
     \<and> unsubscribe s (unsubscribe s c2) = unsubscribe s c2
     \<and> Object_values (callbacks (unsubscribe s c2)) =
         map snd (filter (\<lambda>e. fst e \<noteq> id_sub s) (sort_key fst (callbacks c2)))
     \<and> (id_sub s \<le> lastId c2 \<longrightarrow>
          id_sub s \<notin> fst ` set (callbacks (fst (chan_run ops (unsubscribe s c2, tr2)))))
     \<and> (chan_inv c \<longrightarrow> callbacks (unsubscribe s c') = callbacks c)
     \<and> map fst (channels (EventHub_unsubscribe n s h)) = map fst (channels h)
     \<and> map_of (channels (EventHub_unsubscribe n s h)) =
         (map_of (channels h))(n := map_option (unsubscribe s) (map_of (channels h) n))"
proof -
  let ?i = "Suc (lastId c)"
  have s: "s = \<lparr>unsubscribe = delete_callback ?i, id_sub = ?i\<rparr>"
    and c': "c' = c\<lparr>lastId := ?i, callbacks := AList.update ?i cb (callbacks c)\<rparr>"
    using subscribe_handle[OF assms] by simp_all
  have p1: "map_of (callbacks c') (id_sub s) = Some cb"
    by (simp add: s c' update_conv')
  have p2: "map_of (callbacks (unsubscribe s c2)) = (map_of (callbacks c2))(id_sub s := None)"
    by (simp add: s delete_callback_def delete_conv')
  have p3: "name (unsubscribe s c2) = name c2 \<and> lastEvent (unsubscribe s c2) = lastEvent c2
            \<and> lastId (unsubscribe s c2) = lastId c2"
    by (simp add: s delete_callback_def)
  have p4: "unsubscribe s (unsubscribe s c2) = unsubscribe s c2"
    by (simp add: s delete_callback_def delete_idem)
  have p5: "Object_values (callbacks (unsubscribe s c2)) =
         map snd (filter (\<lambda>e. fst e \<noteq> id_sub s) (sort_key fst (callbacks c2)))"
    by (simp add: s delete_callback_def Object_values_delete)
  have p6: "id_sub s \<le> lastId c2 \<longrightarrow>
          id_sub s \<notin> fst ` set (callbacks (fst (chan_run ops (unsubscribe s c2, tr2))))"
    using deleted_key_stays_out[of ?i c2 ops tr2] by (simp add: s)
  have p7: "chan_inv c \<longrightarrow> callbacks (unsubscribe s c') = callbacks c"
  proof
    assume inv: "chan_inv c"
    show "callbacks (unsubscribe s c') = callbacks c"
      using delete_update_fresh[OF chan_inv_fresh_key[OF inv], of cb]
      by (simp add: s c' delete_callback_def)
  qed
  have p8: "map fst (channels (EventHub_unsubscribe n s h)) = map fst (channels h)"
    by (rule keys_EventHub_unsubscribe)
  have p9: "map_of (channels (EventHub_unsubscribe n s h)) =
         (map_of (channels h))(n := map_option (unsubscribe s) (map_of (channels h) n))"
    by (auto simp add: EventHub_unsubscribe_def map_of_map_entry split: option.splits)
  show ?thesis
    using p1 p2 p3 p4 p5 p6 p7 p8 p9 by blast
qed

text \<open>An instance: two subscribers, the second unsubscribes (twice); a publish reaches only
  the first.\<close>

theorem C8_witness:
  "Channel_subscribe (Callback 12 (\<lambda>m. False)) False
      (fst (chan_run [Subscribe (Callback 11 (\<lambda>m. False)) False] (new_Channel ''test'', []))) []
   = (Inr \<lparr>unsubscribe = delete_callback 2, id_sub = 2\<rparr>,
      \<lparr>name = ''test'', lastEvent = JUndefined, lastId = 2,
       callbacks = [(1, Callback 11 (\<lambda>m. False)), (2, Callback 12 (\<lambda>m. False))]\<rparr>,
      [])
   \<and> delete_callback 2
        \<lparr>name = ''test'', lastEvent = JUndefined, lastId = 2,
         callbacks = [(1, Callback 11 (\<lambda>m. False)), (2, Callback 12 (\<lambda>m. False))]\<rparr>
     = \<lparr>name = ''test'', lastEvent = JUndefined, lastId = 2,
        callbacks = [(1, Callback 11 (\<lambda>m. False))]\<rparr>
   \<and> delete_callback 2 (delete_callback 2
        \<lparr>name = ''test'', lastEvent = JUndefined, lastId = 2,
         callbacks = [(1, Callback 11 (\<lambda>m. False)), (2, Callback 12 (\<lambda>m. False))]\<rparr>)
     = \<lparr>name = ''test'', lastEvent = JUndefined, lastId = 2,
        callbacks = [(1, Callback 11 (\<lambda>m. False))]\<rparr>
   \<and> snd (snd (Channel_publish (JNum 5) (delete_callback 2
        \<lparr>name = ''test'', lastEvent = JUndefined, lastId = 2,
         callbacks = [(1, Callback 11 (\<lambda>m. False)), (2, Callback 12 (\<lambda>m. False))]\<rparr>) []))
     = [(11, \<lparr>channel = ''test'', data = JNum 5\<rparr>)]"
proof -
  have sub: "Channel_subscribe (Callback 12 (\<lambda>m. False)) False
      (fst (chan_run [Subscribe (Callback 11 (\<lambda>m. False)) False] (new_Channel ''test'', []))) []
   = (Inr \<lparr>unsubscribe = delete_callback 2, id_sub = 2\<rparr>,
      \<lparr>name = ''test'', lastEvent = JUndefined, lastId = 2,
       callbacks = [(1, Callback 11 (\<lambda>m. False)), (2, Callback 12 (\<lambda>m. False))]\<rparr>,
      [])"
    by (simp add: run_simps numeral_2_eq_2)
  show ?thesis
    using sub C8_unsubscribe_removes_exactly_one[OF sub]
    by (simp add: run_simps)
qed

section \<open>The channel field of delivered messages\<close>

text \<open>
  What \<open>EventHub.publish(n, d)\<close> adds to the trace on a hub satisfying the invariant: first
  calls \<open>e1\<close> of subscribers of \<open>n\<close>, then calls \<open>e2\<close> of wildcard subscribers.
\<close>

lemma EventHub_publish_inherited:
  "hub_inv h \<Longrightarrow> n \<in> set Object_prototype_names \<Longrightarrow>
   EventHub_publish n d h tr = (Inl TypeError, h, tr)"
  by (simp add: hub_inv_def EventHub_publish_def on_channel_def ensure_channel_cases
      get_channel_def)

lemma EventHub_publish_trace:
  assumes inv: "hub_inv h" and ord: "n \<notin> set Object_prototype_names"
  shows "\<exists>e1 e2.
     snd (snd (EventHub_publish n d h tr)) = tr @ e1 @ e2
     \<and> prefix e1 (map (\<lambda>cb. (cb_tag cb, \<lparr>channel = n, data = d\<rparr>)) (subscribers n h))
     \<and> set e2 \<subseteq> set (map (\<lambda>cb. (cb_tag cb, \<lparr>channel = WildCardChannel, data = d\<rparr>))
                         (subscribers WildCardChannel h))
     \<and> (fst (EventHub_publish n d h tr) = Inr () \<longrightarrow>
          e1 = map (\<lambda>cb. (cb_tag cb, \<lparr>channel = n, data = d\<rparr>)) (subscribers n h)
          \<and> set e2 = set (map (\<lambda>cb. (cb_tag cb, \<lparr>channel = WildCardChannel, data = d\<rparr>))
                            (subscribers WildCardChannel h)))
     \<and> ((\<forall>cb\<in>set (subscribers n h). \<not> cb_throws cb \<lparr>channel = n, data = d\<rparr>) \<and>
         (\<forall>cb\<in>set (subscribers WildCardChannel h).
             \<not> cb_throws cb \<lparr>channel = WildCardChannel, data = d\<rparr>) \<longrightarrow>
          fst (EventHub_publish n d h tr) = Inr ())"
proof -
  let ?N = "map (\<lambda>cb. (cb_tag cb, \<lparr>channel = n, data = d\<rparr>)) (subscribers n h)"
  let ?W = "map (\<lambda>cb. (cb_tag cb, \<lparr>channel = WildCardChannel, data = d\<rparr>))
              (subscribers WildCardChannel h)"
  let ?qn = "\<forall>cb\<in>set (subscribers n h). \<not> cb_throws cb \<lparr>channel = n, data = d\<rparr>"
  let ?qw = "\<forall>cb\<in>set (subscribers WildCardChannel h).
               \<not> cb_throws cb \<lparr>channel = WildCardChannel, data = d\<rparr>"
  let ?h0 = "ensure_channel n h"
  have inv0: "hub_inv ?h0"
    using inv by (rule hub_inv_ensure_channel)
  have pres0: "map_of (channels ?h0) n \<noteq> None"
    using ensure_channel_present[OF ord, of h] by auto
  have sub0: "\<And>k. subscribers k ?h0 = subscribers k h"
    by (rule subscribers_ensure_channel)
  obtain r1 h1 tr1 where s1: "on_channel n (Channel_publish d) ?h0 tr = (r1, h1, tr1)"
    by (cases "on_channel n (Channel_publish d) ?h0 tr") auto
  have inv1: "hub_inv h1"
    using on_channel_publish(1)[OF inv0 pres0 s1] .
  have sub1: "\<And>k. subscribers k h1 = subscribers k h"
    using on_channel_publish(2)[OF inv0 pres0 s1] sub0 by simp
  obtain e1 where e1: "tr1 = tr @ e1" "prefix e1 ?N" "r1 = Inr () \<longrightarrow> e1 = ?N"
    using on_channel_publish(3)[OF inv0 pres0 s1] sub0 by auto
  have q1: "?qn \<Longrightarrow> r1 = Inr ()"
    using on_channel_publish(4)[OF inv0 pres0 s1] sub0 by simp
  have pres1: "map_of (channels h1) WildCardChannel \<noteq> None"
    using inv1 by (simp add: hub_inv_def)
  obtain r2 h2 tr2 where
    s2: "on_channel WildCardChannel (Channel_publish d) h1 tr1 = (r2, h2, tr2)"
    by (cases "on_channel WildCardChannel (Channel_publish d) h1 tr1") auto
  have inv2: "hub_inv h2"
    using on_channel_publish(1)[OF inv1 pres1 s2] .
  have sub2: "\<And>k. subscribers k h2 = subscribers k h"
    using on_channel_publish(2)[OF inv1 pres1 s2] sub1 by simp
  obtain a where a: "tr2 = tr1 @ a" "prefix a ?W" "r2 = Inr () \<longrightarrow> a = ?W"
    using on_channel_publish(3)[OF inv1 pres1 s2] sub1 by auto
  have q2: "?qw \<Longrightarrow> r2 = Inr ()"
    using on_channel_publish(4)[OF inv1 pres1 s2] sub1 by simp
  have pres2: "map_of (channels h2) WildCardChannel \<noteq> None"
    using inv2 by (simp add: hub_inv_def)
  obtain r3 h3 tr3 where
    s3: "on_channel WildCardChannel (Channel_publish d) h2 tr2 = (r3, h3, tr3)"
    by (cases "on_channel WildCardChannel (Channel_publish d) h2 tr2") auto
  obtain b where b: "tr3 = tr2 @ b" "prefix b ?W" "r3 = Inr () \<longrightarrow> b = ?W"
    using on_channel_publish(3)[OF inv2 pres2 s3] sub2 by auto
  have q3: "?qw \<Longrightarrow> r3 = Inr ()"
    using on_channel_publish(4)[OF inv2 pres2 s3] sub2 by simp
  have sa: "set a \<subseteq> set ?W" using a(2) by (rule set_mono_prefix)
  have sb: "set b \<subseteq> set ?W" using b(2) by (rule set_mono_prefix)
  show ?thesis
  proof (cases r1)
    case (Inl x)
    then have "EventHub_publish n d h tr = (Inl x, h1, tr1)"
      using s1 by (simp add: EventHub_publish_def)
    then have "snd (snd (EventHub_publish n d h tr)) = tr @ e1 @ []"
      and "fst (EventHub_publish n d h tr) \<noteq> Inr ()"
      using e1(1) by simp_all
    moreover have "\<not> ?qn" using q1 Inl by auto
    ultimately show ?thesis using e1(2) by (intro exI[of _ e1] exI[of _ "[]"]) simp
  next
    case r1: (Inr u1)
    then have n1: "e1 = ?N" using e1(3) by simp
    show ?thesis
    proof (cases r2)
      case (Inl x)
      then have "EventHub_publish n d h tr = (Inl x, h2, tr2)"
        using s1 s2 r1 by (simp add: EventHub_publish_def)
      then have "snd (snd (EventHub_publish n d h tr)) = tr @ e1 @ a"
        and "fst (EventHub_publish n d h tr) \<noteq> Inr ()"
        using e1(1) a(1) by simp_all
      moreover have "\<not> ?qw" using q2 Inl by auto
      ultimately show ?thesis using e1(2) sa by (intro exI[of _ e1] exI[of _ a]) simp
    next
      case r2: (Inr u2)
      then have w: "a = ?W" using a(3) by simp
      have "EventHub_publish n d h tr = (r3, h3, tr3)"
        using s1 s2 s3 r1 r2 by (simp add: EventHub_publish_def)
      then have t: "snd (snd (EventHub_publish n d h tr)) = tr @ e1 @ (a @ b)"
        and r: "fst (EventHub_publish n d h tr) = r3"
        using e1(1) a(1) b(1) by simp_all
      have sab: "set (a @ b) = set ?W" using w sb by auto
      have "?qw \<longrightarrow> fst (EventHub_publish n d h tr) = Inr ()" using q3 r by simp
      then show ?thesis using t e1(2) n1 sab
        by (intro exI[of _ e1] exI[of _ "a @ b"]) simp
    qed
  qed
qed

text \<open>
  Claim C9. On a hub that has seen any sequence of operations, \<open>EventHub.publish(n, d)\<close>
  first calls subscribers of \<open>n\<close>, in fan-out order, each with the message
  \<open>{channel: n, data: d}\<close>, and then calls only wildcard subscribers, each with the message
  \<open>{channel: "*", data: d}\<close>: the channel field seen by a wildcard subscriber is the wildcard
  channel's own name, not \<open>n\<close>. When the publish returns normally, every subscriber of \<open>n\<close>
  and every wildcard subscriber has been called; it returns normally when \<open>n\<close> is not an
  inherited name and none of them throws. On an inherited name it ends in a \<open>TypeError\<close>
  before any callback is called.
\<close>

theorem C9_wildcard_envelope_channel_field:
  "\<exists>e1 e2.
     snd (snd (EventHub_publish n d (fst (hub_run ops (new_EventHub, tr0))) tr)) = tr @ e1 @ e2
     \<and> prefix e1 (map (\<lambda>cb. (cb_tag cb, \<lparr>channel = n, data = d\<rparr>))
                    (subscribers n (fst (hub_run ops (new_EventHub, tr0)))))
     \<and> set e2 \<subseteq> set (map (\<lambda>cb. (cb_tag cb, \<lparr>channel = ''*'', data = d\<rparr>))
                         (subscribers ''*'' (fst (hub_run ops (new_EventHub, tr0)))))
     \<and> (fst (EventHub_publish n d (fst (hub_run ops (new_EventHub, tr0))) tr) = Inr () \<longrightarrow>
          e1 = map (\<lambda>cb. (cb_tag cb, \<lparr>channel = n, data = d\<rparr>))
                 (subscribers n (fst (hub_run ops (new_EventHub, tr0))))
          \<and> set e2 = set (map (\<lambda>cb. (cb_tag cb, \<lparr>channel = ''*'', data = d\<rparr>))
                            (subscribers ''*'' (fst (hub_run ops (new_EventHub, tr0))))))
     \<and> (n \<notin> set Object_prototype_names \<and>
         (\<forall>cb\<in>set (subscribers n (fst (hub_run ops (new_EventHub, tr0)))).
            \<not> cb_throws cb \<lparr>channel = n, data = d\<rparr>) \<and>
         (\<forall>cb\<in>set (subscribers ''*'' (fst (hub_run ops (new_EventHub, tr0)))).
            \<not> cb_throws cb \<lparr>channel = ''*'', data = d\<rparr>) \<longrightarrow>
          fst (EventHub_publish n d (fst (hub_run ops (new_EventHub, tr0))) tr) = Inr ())
     \<and> (n \<in> set Object_prototype_names \<longrightarrow>
          EventHub_publish n d (fst (hub_run ops (new_EventHub, tr0))) tr =
            (Inl TypeError, fst (hub_run ops (new_EventHub, tr0)), tr))"
proof -
  let ?H = "fst (hub_run ops (new_EventHub, tr0))"
  have inv: "hub_inv ?H"
    by (rule hub_inv_run) (simp add: hub_inv_new)
  show ?thesis
  proof (cases "n \<in> set Object_prototype_names")
    case True
    have r: "EventHub_publish n d ?H tr = (Inl TypeError, ?H, tr)"
      using inv True by (rule EventHub_publish_inherited)
    show ?thesis
      using True r by (intro exI[of _ "[]"]) simp
  next
    case False
    from EventHub_publish_trace[OF inv False, of d tr]
    obtain e1 e2 where
      t: "snd (snd (EventHub_publish n d ?H tr)) = tr @ e1 @ e2"
      and p: "prefix e1 (map (\<lambda>cb. (cb_tag cb, \<lparr>channel = n, data = d\<rparr>)) (subscribers n ?H))"
      and w: "set e2 \<subseteq> set (map (\<lambda>cb. (cb_tag cb, \<lparr>channel = ''*'', data = d\<rparr>))
                               (subscribers ''*'' ?H))"
      and c: "fst (EventHub_publish n d ?H tr) = Inr () \<longrightarrow>
          e1 = map (\<lambda>cb. (cb_tag cb, \<lparr>channel = n, data = d\<rparr>)) (subscribers n ?H)
          \<and> set e2 = set (map (\<lambda>cb. (cb_tag cb, \<lparr>channel = ''*'', data = d\<rparr>))
                            (subscribers ''*'' ?H))"
      and q: "(\<forall>cb\<in>set (subscribers n ?H). \<not> cb_throws cb \<lparr>channel = n, data = d\<rparr>) \<and>
         (\<forall>cb\<in>set (subscribers ''*'' ?H). \<not> cb_throws cb \<lparr>channel = ''*'', data = d\<rparr>) \<longrightarrow>
          fst (EventHub_publish n d ?H tr) = Inr ()"
      unfolding WildCardChannel_def by blast
    show ?thesis
      using t p w c q False by (intro exI[of _ e1] exI[of _ e2]) blast
  qed
qed

text \<open>An instance: one wildcard subscriber and one subscriber of \<open>orders\<close>.\<close>

theorem C9_witness:
  "EventHub_publish ''orders'' (JNum 42)
     (fst (hub_run [HSubscribe ''*'' (Callback 7 (\<lambda>m. False)) False,
                    HSubscribe ''orders'' (Callback 8 (\<lambda>m. False)) False]
            (new_EventHub, []))) []
   = (Inr (),
      \<lparr>channels =
         [(''*'', \<lparr>name = ''*'', lastEvent = JNum 42, lastId = 1,
                  callbacks = [(1, Callback 7 (\<lambda>m. False))]\<rparr>),
          (''orders'', \<lparr>name = ''orders'', lastEvent = JNum 42, lastId = 1,
                       callbacks = [(1, Callback 8 (\<lambda>m. False))]\<rparr>)]\<rparr>,
      [(8, \<lparr>channel = ''orders'', data = JNum 42\<rparr>),
       (7, \<lparr>channel = ''*'', data = JNum 42\<rparr>),
       (7, \<lparr>channel = ''*'', data = JNum 42\<rparr>)])
   \<and> subscribers ''*'' (fst (hub_run [HSubscribe ''*'' (Callback 7 (\<lambda>m. False)) False,
                    HSubscribe ''orders'' (Callback 8 (\<lambda>m. False)) False]
            (new_EventHub, []))) = [Callback 7 (\<lambda>m. False)]
   \<and> subscribers ''orders'' (fst (hub_run [HSubscribe ''*'' (Callback 7 (\<lambda>m. False)) False,
                    HSubscribe ''orders'' (Callback 8 (\<lambda>m. False)) False]
            (new_EventHub, []))) = [Callback 8 (\<lambda>m. False)]"
  using C9_wildcard_envelope_channel_field[of "''orders''" "JNum 42"
      "[HSubscribe ''*'' (Callback 7 (\<lambda>m. False)) False,
        HSubscribe ''orders'' (Callback 8 (\<lambda>m. False)) False]" "[]" "[]"]
  by (simp add: run_simps subscribers_def)

section \<open>A callback that throws\<close>

text \<open>
  Claim C10. When a callback throws during \<open>Channel.publish\<close>, the exception is the result
  of the publish, the callbacks before it (in fan-out order) and the throwing one have been
  called, the later ones are not called, and the last event is already the published value.
\<close>

theorem C10_throwing_callback_aborts_fanout:
  assumes "Object_values (callbacks c) = pre @ cb # post"
    and "\<forall>x\<in>set pre. \<not> cb_throws x \<lparr>channel = name c, data = d\<rparr>"
    and "cb_throws cb \<lparr>channel = name c, data = d\<rparr>"
  shows "Channel_publish d c tr =
           (Inl (CallbackError (cb_tag cb)),
            c\<lparr>lastEvent := d\<rparr>,
            tr @ map (\<lambda>x. (cb_tag x, \<lparr>channel = name c, data = d\<rparr>)) pre
               @ [(cb_tag cb, \<lparr>channel = name c, data = d\<rparr>)])
         \<and> lastEvent (fst (snd (Channel_publish d c tr))) = d"
  using assms forEach_throw[OF assms(2) assms(3), of post tr]
  by (simp add: Channel_publish_def Let_def)

theorem C10_witness:
  "Channel_publish (JBool True)
     (fst (chan_run [Subscribe (Callback 1 (\<lambda>m. False)) False,
                     Subscribe (Callback 2 (\<lambda>m. True)) False,
                     Subscribe (Callback 3 (\<lambda>m. False)) False]
            (new_Channel ''test'', []))) []
   = (Inl (CallbackError 2),
      \<lparr>name = ''test'', lastEvent = JBool True, lastId = 3,
       callbacks = [(1, Callback 1 (\<lambda>m. False)), (2, Callback 2 (\<lambda>m. True)),
                    (3, Callback 3 (\<lambda>m. False))]\<rparr>,
      [(1, \<lparr>channel = ''test'', data = JBool True\<rparr>),
       (2, \<lparr>channel = ''test'', data = JBool True\<rparr>)])"
  using C10_throwing_callback_aborts_fanout[of
      "fst (chan_run [Subscribe (Callback 1 (\<lambda>m. False)) False,
                     Subscribe (Callback 2 (\<lambda>m. True)) False,
                     Subscribe (Callback 3 (\<lambda>m. False)) False]
            (new_Channel ''test'', []))"
      "[Callback 1 (\<lambda>m. False)]" "Callback 2 (\<lambda>m. True)" "[Callback 3 (\<lambda>m. False)]"
      "JBool True" "[]"]
  by (simp add: run_simps)

end
